theory Spec2Isabelle
  imports Main
begin

section \<open>Exceptions and HTTP responses\<close>

text \<open>
  \<^verbatim>\<open>main.py\<close> is a script: it has no \<^verbatim>\<open>try\<close> block, so an exception raised
  anywhere ends the run before \<^verbatim>\<open>session.commit()\<close>. The exceptions that its own
  statements can raise on the payloads described below are values of \<open>py_error\<close>:
  \<^item> \<open>JSONDecodeError\<close>: \<^verbatim>\<open>response.json()\<close> on a body that is not JSON;
  \<^item> \<open>KeyError\<close>: a subscript \<^verbatim>\<open>d[k]\<close> on a dictionary without the key \<^verbatim>\<open>k\<close>;
  \<^item> \<open>TypeError\<close>: the tuple assignment \<^verbatim>\<open>match, score = None\<close>.

  A request is modelled by the response it receives: the status code and the body, which
  either parses as JSON of the endpoint's shape (\<open>Some\<close>) or does not parse (\<open>None\<close>).
  What the script prints (the failure reports and the progress lines, with the counter of
  \<^verbatim>\<open>enumerate\<close>) changes no value and is left out.
\<close>

datatype py_error = TypeError | KeyError | JSONDecodeError

record 'a response =
  status_code :: int
  body :: "'a option"

definition json :: "'a response \<Rightarrow> py_error + 'a" where
  "json r = (case body r of None \<Rightarrow> Inl JSONDecodeError | Some data \<Rightarrow> Inr data)"

text \<open>\<^verbatim>\<open>d.get(key, default)\<close> on an optional member of a JSON object.\<close>

definition get :: "'a option \<Rightarrow> 'a \<Rightarrow> 'a" where
  "get member dflt = (case member of None \<Rightarrow> dflt | Some v \<Rightarrow> v)"

section \<open>Strings\<close>

text \<open>
  Titles and names are ASCII strings; on these \<^verbatim>\<open>str.lower()\<close> replaces the letters
  \<^verbatim>\<open>A\<close> to \<^verbatim>\<open>Z\<close> by \<^verbatim>\<open>a\<close> to \<^verbatim>\<open>z\<close> and keeps every other character.
\<close>

definition lower_char :: "char \<Rightarrow> char" where
  "lower_char c =
     (let n = (of_char c :: nat) in if 65 \<le> n \<and> n \<le> 90 then char_of (n + 32) else c)"

definition lower :: "string \<Rightarrow> string" where
  "lower s = map lower_char s"

section \<open>The storefront index\<close>

text \<open>
  A Python \<^verbatim>\<open>dict\<close> keeps its keys in insertion order, and \<^verbatim>\<open>process.extractOne\<close>
  enumerates them in that order, so the index is an association list. \<open>setitem\<close> is
  \<^verbatim>\<open>d[k] = v\<close>: a key already present keeps its position and takes the new value, a
  new key goes to the end. \<open>keys\<close> is \<^verbatim>\<open>d.keys()\<close>, and \<open>map_of d k\<close> is the lookup.
\<close>

type_synonym app_dict = "(string \<times> int) list"

fun setitem :: "('k \<times> 'v) list \<Rightarrow> 'k \<Rightarrow> 'v \<Rightarrow> ('k \<times> 'v) list" where
  "setitem [] k v = [(k, v)]"
| "setitem ((k', v') # d) k v =
     (if k' = k then (k, v) # d else (k', v') # setitem d k v)"

definition keys :: "('k \<times> 'v) list \<Rightarrow> 'k list" where
  "keys d = map fst d"

text \<open>
  The app list endpoint answers \<^verbatim>\<open>{"applist": {"apps": [{"name": .., "appid": ..}, ..]}}\<close>;
  the members \<^verbatim>\<open>applist\<close> and \<^verbatim>\<open>apps\<close> are read with \<^verbatim>\<open>.get\<close> and may be missing.
\<close>

record steam_app =
  app_name :: string
  appid :: int

record applist_obj =
  apps :: "steam_app list option"

record applist_json =
  applist :: "applist_obj option"

text \<open>
  \<^verbatim>\<open>
  def build_steam_app_dict():
      response = requests.get(STEAM_API_URL)
      if response.status_code == 200:
          app_list = response.json().get('applist', {}).get('apps', [])
          return {app['name'].lower(): app['appid'] for app in app_list}
      else:
          print(f"Failed to fetch Steam App List: {response.status_code}")
          return {}
  \<close>
\<close>

definition build_steam_app_dict :: "applist_json response \<Rightarrow> py_error + app_dict" where
  "build_steam_app_dict response =
     (if status_code response = 200 then
        (case json response of
           Inl e \<Rightarrow> Inl e
         | Inr data \<Rightarrow>
             (let app_list = get (apps (get (applist data) \<lparr>apps = None\<rparr>)) []
              in Inr (foldl (\<lambda>d app. setitem d (lower (app_name app)) (appid app)) [] app_list)))
      else Inr [])"

section \<open>Resolving a title\<close>

text \<open>
  \<^verbatim>\<open>fuzzywuzzy\<close> is a library the script imports. The score it computes for a query
  and a choice under \<^verbatim>\<open>scorer=fuzz.token_sort_ratio\<close> (an integer from 0 to 100) is a
  parameter \<open>scorer\<close> of the model. What \<^verbatim>\<open>process.extractOne\<close> does with the scores is
  modelled: \<^verbatim>\<open>extractWithoutOrder\<close> yields nothing for an empty collection of choices
  and otherwise a pair \<^verbatim>\<open>(choice, score)\<close> for every choice whose score reaches
  \<^verbatim>\<open>score_cutoff\<close> (0 by default); \<^verbatim>\<open>extractOne\<close> returns \<^verbatim>\<open>max(best_list, key=lambda i: i[1])\<close>,
  the first pair of maximal score, and \<^verbatim>\<open>None\<close> when there is no pair.
\<close>

definition extractWithoutOrder ::
  "(string \<Rightarrow> string \<Rightarrow> nat) \<Rightarrow> string \<Rightarrow> string list \<Rightarrow> nat \<Rightarrow> (string \<times> nat) list" where
  "extractWithoutOrder scorer query choices score_cutoff =
     (if length choices = 0 then []
      else [(choice, scorer query choice). choice \<leftarrow> choices, scorer query choice \<ge> score_cutoff])"

fun max_by_score :: "(string \<times> nat) list \<Rightarrow> (string \<times> nat) option" where
  "max_by_score [] = None"
| "max_by_score (x # xs) =
     Some (foldl (\<lambda>best i. if snd i > snd best then i else best) x xs)"

definition extractOne ::
  "(string \<Rightarrow> string \<Rightarrow> nat) \<Rightarrow> string \<Rightarrow> string list \<Rightarrow> (string \<times> nat) option" where
  "extractOne scorer query choices = max_by_score (extractWithoutOrder scorer query choices 0)"

text \<open>
  \<^verbatim>\<open>
  def match_app_id(name, app_dict, threshold=90):
      name_lower = name.lower()
      if name_lower in app_dict:
          return app_dict[name_lower]
      match, score = process.extractOne(name_lower, app_dict.keys(), scorer=fuzz.token_sort_ratio)
      if score >= threshold:
          return app_dict[match]
      else:
          return None
  \<close>
  The tuple assignment raises \<^verbatim>\<open>TypeError\<close> when \<^verbatim>\<open>extractOne\<close> returns \<^verbatim>\<open>None\<close>.
\<close>

definition getitem :: "('k \<times> 'v) list \<Rightarrow> 'k \<Rightarrow> py_error + 'v" where
  "getitem d k = (case map_of d k of None \<Rightarrow> Inl KeyError | Some v \<Rightarrow> Inr v)"

definition match_app_id ::
  "(string \<Rightarrow> string \<Rightarrow> nat) \<Rightarrow> string \<Rightarrow> app_dict \<Rightarrow> int \<Rightarrow> py_error + int option" where
  "match_app_id scorer name app_dict threshold =
     (let name_lower = lower name in
      if name_lower \<in> set (keys app_dict) then
        (case getitem app_dict name_lower of Inl e \<Rightarrow> Inl e | Inr v \<Rightarrow> Inr (Some v))
      else
        (case extractOne scorer name_lower (keys app_dict) of
           None \<Rightarrow> Inl TypeError
         | Some (match, score) \<Rightarrow>
             if int score \<ge> threshold then
               (case getitem app_dict match of Inl e \<Rightarrow> Inl e | Inr v \<Rightarrow> Inr (Some v))
             else Inr None))"

definition default_threshold :: int where
  "default_threshold = 90"

section \<open>The player count\<close>

text \<open>
  The player count endpoint answers \<^verbatim>\<open>{"response": {"player_count": ..}}\<close>, where the
  member \<^verbatim>\<open>player_count\<close> may be missing; a body without the member \<^verbatim>\<open>response\<close>
  makes the subscript \<^verbatim>\<open>data['response']\<close> raise \<^verbatim>\<open>KeyError\<close>.

  The run keeps a trace of what it does, a list of \<open>event\<close>s: \<open>Resolve i t\<close> is the call
  \<^verbatim>\<open>match_app_id(t, ..)\<close> made for the catalog record of id \<open>i\<close>, \<open>Fetch i a\<close> the call
  \<^verbatim>\<open>get_steam_player_count(a)\<close> made for that record, and \<open>Request i a\<close> an HTTP request
  to the player count endpoint for the app \<open>a\<close>, made within that call. \<open>subject\<close> is the
  catalog record an event belongs to.
\<close>

record count_obj =
  player_count :: "int option"

record count_json =
  response_member :: "count_obj option"

datatype event = Resolve int string | Fetch int "int option" | Request int int

fun subject :: "event \<Rightarrow> int" where
  "subject (Resolve i t) = i"
| "subject (Fetch i a) = i"
| "subject (Request i a) = i"

text \<open>
  \<^verbatim>\<open>
  def get_steam_player_count(app_id):
      if app_id is None:
          return None
      url = f"https://api.steampowered.com/.../?appid={app_id}"
      response = requests.get(url)
      data = response.json()
      return data['response']['player_count'] if 'player_count' in data['response'] else None
  \<close>
  The argument \<open>steam\<close> is the endpoint: the response it gives for an app. The function
  returns its result together with the apps it has sent a request for.
\<close>

definition get_steam_player_count ::
  "(int \<Rightarrow> count_json response) \<Rightarrow> int option \<Rightarrow> (py_error + int option) \<times> int list" where
  "get_steam_player_count steam app_id =
     (case app_id of
        None \<Rightarrow> (Inr None, [])
      | Some a \<Rightarrow>
          (let response = steam a in
           (case json response of
              Inl e \<Rightarrow> Inl e
            | Inr data \<Rightarrow>
                (case response_member data of
                   None \<Rightarrow> Inl KeyError
                 | Some r \<Rightarrow> Inr (player_count r)),
            [a])))"

section \<open>The catalog\<close>

text \<open>
  A catalog record is a JSON object with eleven members, and a row of the table
  \<^verbatim>\<open>games\<close> has the same eleven columns and the two columns \<^verbatim>\<open>steam_appid\<close> and
  \<^verbatim>\<open>steam_player_count\<close>, which may be \<^verbatim>\<open>NULL\<close>. The member \<^verbatim>\<open>id\<close> is written \<open>id'\<close>.
\<close>

record game =
  id' :: int
  title :: string
  thumbnail :: string
  short_description :: string
  game_url :: string
  genre :: string
  platform :: string
  publisher :: string
  developer :: string
  release_date :: string
  freetogame_profile_url :: string

record Game = game +
  steam_appid :: "int option"
  steam_player_count :: "int option"

text \<open>
  \<^verbatim>\<open>
  def fetch_api(url):
      response = requests.get(url)
      if response.status_code == 200:
          data = response.json()
          return data
      else:
          print(f"Failed to fetch data: {response.status_code}")
          print(response.text)
          return None
  \<close>
\<close>

definition fetch_api :: "game list response \<Rightarrow> py_error + game list option" where
  "fetch_api response =
     (if status_code response = 200 then
        (case json response of Inl e \<Rightarrow> Inl e | Inr data \<Rightarrow> Inr (Some data))
      else Inr None)"

section \<open>The session and the sync loop\<close>

text \<open>
  The state of a run: \<open>table\<close> holds the committed rows of \<^verbatim>\<open>games\<close>, \<open>pending\<close> the
  objects given to \<^verbatim>\<open>session.add\<close> since the session began, \<open>trace\<close> the events so far.
  The session is made by \<^verbatim>\<open>sessionmaker(bind=engine)\<close>, so it flushes before every query:
  \<^verbatim>\<open>session.query(Game).filter_by(id=i).first()\<close> sees the pending objects as well as the
  committed rows. \<^verbatim>\<open>session.commit()\<close> makes the pending objects rows of the table.
\<close>

record state =
  table :: "Game list"
  pending :: "Game list"
  trace :: "event list"

definition query_first :: "state \<Rightarrow> int \<Rightarrow> Game option" where
  "query_first s i = find (\<lambda>row. id' row = i) (table s @ pending s)"

definition add :: "state \<Rightarrow> Game \<Rightarrow> state" where
  "add s game_entry = s\<lparr>pending := pending s @ [game_entry]\<rparr>"

definition commit :: "state \<Rightarrow> state" where
  "commit s = s\<lparr>table := table s @ pending s, pending := []\<rparr>"

text \<open>Python's truth value of \<^verbatim>\<open>steam_appid\<close>: \<^verbatim>\<open>None\<close> and \<^verbatim>\<open>0\<close> are false.\<close>

definition truthy :: "int option \<Rightarrow> bool" where
  "truthy v = (case v of None \<Rightarrow> False | Some n \<Rightarrow> n \<noteq> 0)"

text \<open>
  The body of the loop, for one catalog record. It returns the state reached and the
  exception raised, if any; \<open>appid'\<close> and \<open>player_count'\<close> are the variables
  \<^verbatim>\<open>steam_appid\<close> and \<^verbatim>\<open>steam_player_count\<close>.
  \<^verbatim>\<open>
      existing_game = session.query(Game).filter_by(id=game["id"]).first()
      if existing_game:
          continue
      game_title = game["title"]
      steam_appid = match_app_id(game_title, steam_app_dict)
      steam_player_count = get_steam_player_count(steam_appid) if steam_appid else None
      game_entry = Game(id=game["id"], ..., steam_appid=steam_appid,
                        steam_player_count=steam_player_count)
      session.add(game_entry)
      print(f"Processing game {index}/{total_games}: {game['title']}")
  \<close>
\<close>

definition process_game ::
  "(string \<Rightarrow> string \<Rightarrow> nat) \<Rightarrow> app_dict \<Rightarrow> (int \<Rightarrow> count_json response) \<Rightarrow>
   state \<Rightarrow> game \<Rightarrow> state \<times> py_error option" where
  "process_game scorer steam_app_dict steam s game =
     (case query_first s (id' game) of
        Some existing_game \<Rightarrow> (s, None)
      | None \<Rightarrow>
          (let game_title = title game;
               s1 = s\<lparr>trace := trace s @ [Resolve (id' game) game_title]\<rparr>
           in case match_app_id scorer game_title steam_app_dict default_threshold of
                Inl e \<Rightarrow> (s1, Some e)
              | Inr appid' \<Rightarrow>
                  (let (count, requests) =
                         (if truthy appid' then get_steam_player_count steam appid'
                          else (Inr None, []));
                       s2 = (if truthy appid'
                             then s1\<lparr>trace := trace s1 @ Fetch (id' game) appid'
                                                    # map (Request (id' game)) requests\<rparr>
                             else s1)
                   in case count of
                        Inl e \<Rightarrow> (s2, Some e)
                      | Inr player_count' \<Rightarrow>
                          (add s2 (game.extend game
                             \<lparr>steam_appid = appid', steam_player_count = player_count'\<rparr>),
                           None))))"

text \<open>
  \<^verbatim>\<open>for index, game in enumerate(api_data, start=1): ...\<close>; the loop ends at the first
  exception.
\<close>

fun sync_loop ::
  "(string \<Rightarrow> string \<Rightarrow> nat) \<Rightarrow> app_dict \<Rightarrow> (int \<Rightarrow> count_json response) \<Rightarrow>
   state \<Rightarrow> game list \<Rightarrow> state \<times> py_error option" where
  "sync_loop scorer steam_app_dict steam s [] = (s, None)"
| "sync_loop scorer steam_app_dict steam s (game # api_data) =
     (case process_game scorer steam_app_dict steam s game of
        (s', Some e) \<Rightarrow> (s', Some e)
      | (s', None) \<Rightarrow> sync_loop scorer steam_app_dict steam s' api_data)"

text \<open>
  What a run leaves: \<open>stored\<close>, the rows of the table after it; \<open>staged\<close>, the objects it
  gave to \<^verbatim>\<open>session.add\<close>; \<open>calls\<close>, its trace; \<open>raised\<close>, the exception that ended it,
  if any. \<open>sync\<close> is the loop over the catalog followed by \<^verbatim>\<open>session.commit()\<close>, on a
  new session over the table; a run ended by an exception commits nothing.
\<close>

record outcome =
  stored :: "Game list"
  staged :: "Game list"
  calls :: "event list"
  raised :: "py_error option"

definition sync ::
  "(string \<Rightarrow> string \<Rightarrow> nat) \<Rightarrow> app_dict \<Rightarrow> (int \<Rightarrow> count_json response) \<Rightarrow>
   Game list \<Rightarrow> game list \<Rightarrow> outcome" where
  "sync scorer steam_app_dict steam rows api_data =
     (case sync_loop scorer steam_app_dict steam \<lparr>table = rows, pending = [], trace = []\<rparr> api_data of
        (s, Some e) \<Rightarrow>
          \<lparr>stored = table s, staged = pending s, calls = trace s, raised = Some e\<rparr>
      | (s, None) \<Rightarrow>
          \<lparr>stored = table (commit s), staged = pending s, calls = trace s, raised = None\<rparr>)"

text \<open>
  The script from the two fetches to the commit:
  \<^verbatim>\<open>
  steam_app_dict = build_steam_app_dict()
  api_data = fetch_api(API_URL)
  if api_data is None:
      api_data = []
  total_games = len(api_data)
  for index, game in enumerate(api_data, start=1): ...
  session.commit()
  \<close>
\<close>

definition aborted :: "Game list \<Rightarrow> py_error \<Rightarrow> outcome" where
  "aborted rows e = \<lparr>stored = rows, staged = [], calls = [], raised = Some e\<rparr>"

definition script ::
  "(string \<Rightarrow> string \<Rightarrow> nat) \<Rightarrow> applist_json response \<Rightarrow> game list response \<Rightarrow>
   (int \<Rightarrow> count_json response) \<Rightarrow> Game list \<Rightarrow> outcome" where
  "script scorer applist_response catalog_response steam rows =
     (case build_steam_app_dict applist_response of
        Inl e \<Rightarrow> aborted rows e
      | Inr steam_app_dict \<Rightarrow>
          (case fetch_api catalog_response of
             Inl e \<Rightarrow> aborted rows e
           | Inr fetched \<Rightarrow>
               (let api_data = (case fetched of None \<Rightarrow> [] | Some data \<Rightarrow> data)
                in sync scorer steam_app_dict steam rows api_data)))"

section \<open>Sample inputs\<close>

text \<open>
  A catalog record with the given id and title and empty strings elsewhere, and an answer
  of the player count endpoint with the given status: no parseable body (\<open>None\<close>), or a
  body with the member \<^verbatim>\<open>response\<close> that carries the given \<^verbatim>\<open>player_count\<close>, if any.
\<close>

definition catalog_record :: "int \<Rightarrow> string \<Rightarrow> game" where
  "catalog_record i t =
     \<lparr>id' = i, title = t, thumbnail = [], short_description = [], game_url = [], genre = [],
      platform = [], publisher = [], developer = [], release_date = [],
      freetogame_profile_url = []\<rparr>"

definition answer :: "int \<Rightarrow> int option option \<Rightarrow> count_json response" where
  "answer code count =
     \<lparr>status_code = code,
      body = map_option (\<lambda>c. \<lparr>response_member = Some \<lparr>player_count = c\<rparr>\<rparr>) count\<rparr>"

section \<open>Invariants of the loop\<close>

text \<open>
  \<open>unfetched s\<close>: a pending object whose \<^verbatim>\<open>steam_appid\<close> is false has no player count,
  and the only events of its catalog record are calls of \<^verbatim>\<open>match_app_id\<close>.
  \<open>accounted s\<close>: every event of the trace belongs to a record whose id the session sees.
\<close>

definition unfetched :: "state \<Rightarrow> bool" where
  "unfetched s \<longleftrightarrow>
     (\<forall>r \<in> set (pending s). \<not> truthy (steam_appid r) \<longrightarrow>
        steam_player_count r = None
        \<and> (\<forall>ev \<in> set (trace s). subject ev = id' r \<longrightarrow> (\<exists>t. ev = Resolve (id' r) t)))"

definition accounted :: "state \<Rightarrow> bool" where
  "accounted s \<longleftrightarrow> subject ` set (trace s) \<subseteq> id' ` set (table s @ pending s)"

section \<open>The index keeps the last entry of a name\<close>

lemma map_of_setitem: "map_of (setitem d k v) = (map_of d)(k \<mapsto> v)"
  by (induction d k v rule: setitem.induct) auto

lemma keys_setitem: "set (keys (setitem d k v)) = insert k (set (keys d))"
  by (induction d k v rule: setitem.induct) (auto simp: keys_def)

lemma distinct_setitem: "distinct (keys d) \<Longrightarrow> distinct (keys (setitem d k v))"
proof (induction d k v rule: setitem.induct)
  case (1 k v)
  then show ?case by (simp add: keys_def)
next
  case (2 k' v' d k v)
  then show ?case using keys_setitem [of d k v] by (auto simp: keys_def)
qed

lemma map_of_comprehension:
  "map_of (foldl (\<lambda>d app. setitem d (f app) (g app)) d0 xs) k =
     (case filter (\<lambda>app. f app = k) xs of [] \<Rightarrow> map_of d0 k | es \<Rightarrow> Some (g (last es)))"
proof (induction xs rule: rev_induct)
  case Nil
  then show ?case by simp
next
  case (snoc x xs)
  then show ?case by (auto simp: map_of_setitem split: list.splits)
qed

lemma distinct_comprehension:
  "distinct (keys d0) \<Longrightarrow> distinct (keys (foldl (\<lambda>d app. setitem d (f app) (g app)) d0 xs))"
  by (induction xs rule: rev_induct) (auto simp: distinct_setitem)

text \<open>
  Claim C9. On a successful response that carries the app list \<open>app_list\<close>, the index
  built by \<open>build_steam_app_dict\<close> has each key once, and it maps a key \<open>k\<close> to the
  \<open>appid\<close> of the last entry of \<open>app_list\<close> whose lower-cased name is \<open>k\<close> (to nothing
  when no entry has that name): of two entries with the same lower-cased name, the later
  one overwrites the earlier.
\<close>

theorem build_steam_app_dict_last_wins:
  "\<exists>d. build_steam_app_dict
          \<lparr>status_code = 200, body = Some \<lparr>applist = Some \<lparr>apps = Some app_list\<rparr>\<rparr>\<rparr> = Inr d
       \<and> distinct (keys d)
       \<and> map_of d k =
           (case filter (\<lambda>app. lower (app_name app) = k) app_list of
              [] \<Rightarrow> None
            | es \<Rightarrow> Some (appid (last es)))"
proof -
  let ?d = "foldl (\<lambda>d app. setitem d (lower (app_name app)) (appid app)) [] app_list"
  have "build_steam_app_dict
          \<lparr>status_code = 200, body = Some \<lparr>applist = Some \<lparr>apps = Some app_list\<rparr>\<rparr>\<rparr> = Inr ?d"
    by (simp add: build_steam_app_dict_def json_def get_def)
  moreover have "distinct (keys ?d)"
    by (rule distinct_comprehension) (simp add: keys_def)
  moreover have "map_of ?d k =
           (case filter (\<lambda>app. lower (app_name app) = k) app_list of
              [] \<Rightarrow> None
            | es \<Rightarrow> Some (appid (last es)))"
    by (simp add: map_of_comprehension split: list.splits)
  ultimately show ?thesis by blast
qed

section \<open>The player count of an absent app\<close>

text \<open>
  Claim C7. \<open>get_steam_player_count\<close> applied to \<^verbatim>\<open>None\<close> returns \<^verbatim>\<open>None\<close> and
  sends no request, whatever the endpoint would answer.
\<close>

theorem get_steam_player_count_absent:
  "get_steam_player_count steam None = (Inr None, [])"
  by (simp add: get_steam_player_count_def)

section \<open>Exact and approximate matches\<close>

text \<open>
  Claim C4. When the lower-cased title is a key of the index, \<open>match_app_id\<close> returns the
  id stored under that key, for every threshold and every scorer: the scores of the other
  keys are never looked at.
\<close>

theorem match_app_id_exact:
  "map_of app_dict (lower name) = Some v \<Longrightarrow>
   match_app_id scorer name app_dict threshold = Inr (Some v)"
  by (auto simp: match_app_id_def getitem_def keys_def Let_def dest: map_of_SomeD
      intro: rev_image_eqI)

theorem match_app_id_exact_witness:
  "map_of [(''dota 2'', 570 :: int), (''path of exile'', 238960)] (lower ''Path of Exile'')
     = Some 238960
   \<and> match_app_id (\<lambda>q c. 0) ''Path of Exile'' [(''dota 2'', 570), (''path of exile'', 238960)] 101
       = Inr (Some 238960)"
proof -
  have h: "map_of [(''dota 2'', 570), (''path of exile'', 238960 :: int)] (lower ''Path of Exile'')
      = Some 238960"
    by code_simp
  show ?thesis using h match_app_id_exact [OF h, of "\<lambda>q c. 0" 101] by blast
qed

text \<open>
  Claim C2, as the code behaves. With an empty index \<^verbatim>\<open>process.extractOne\<close> returns
  \<^verbatim>\<open>None\<close> and the tuple assignment in \<open>match_app_id\<close> raises \<^verbatim>\<open>TypeError\<close>, for every
  title and threshold. So when the app list fetch answers 500 and the catalog holds a
  record that is not stored yet, the script ends with that exception at the first such
  record and commits nothing.
\<close>

theorem match_app_id_empty_index:
  "match_app_id scorer name [] threshold = Inl TypeError
   \<and> script scorer \<lparr>status_code = 500, body = b\<rparr> \<lparr>status_code = 200, body = Some [game]\<rparr> steam []
       = \<lparr>stored = [], staged = [], calls = [Resolve (id' game) (title game)],
          raised = Some TypeError\<rparr>"
proof -
  have m: "match_app_id scorer name [] threshold = Inl TypeError" for name threshold
    by (simp add: match_app_id_def keys_def extractOne_def extractWithoutOrder_def)
  have "build_steam_app_dict \<lparr>status_code = 500, body = b\<rparr> = Inr []"
    by (simp add: build_steam_app_dict_def)
  moreover have "fetch_api \<lparr>status_code = 200, body = Some [game]\<rparr> = Inr (Some [game])"
    by (simp add: fetch_api_def json_def)
  moreover have "sync scorer [] steam [] [game] =
      \<lparr>stored = [], staged = [], calls = [Resolve (id' game) (title game)],
       raised = Some TypeError\<rparr>"
    by (simp add: sync_def process_game_def query_first_def m)
  ultimately show ?thesis using m by (simp add: script_def)
qed

text \<open>The pair that \<^verbatim>\<open>max\<close> returns: the first one of maximal score.\<close>

lemma foldl_best_ge:
  fixes b :: "string \<times> nat"
  shows "snd b \<le> snd (foldl (\<lambda>best i. if snd i > snd best then i else best) b xs)"
proof (induction xs arbitrary: b)
  case Nil
  then show ?case by simp
next
  case (Cons x xs)
  show ?case using Cons.IH [of x] Cons.IH [of b] by auto
qed

lemma foldl_best_upper:
  fixes b :: "string \<times> nat"
  shows "i \<in> set xs \<Longrightarrow> snd i \<le> snd (foldl (\<lambda>best i. if snd i > snd best then i else best) b xs)"
proof (induction xs arbitrary: b)
  case Nil
  then show ?case by simp
next
  case (Cons x xs)
  show ?case
  proof (cases "i = x")
    case True
    then show ?thesis
      using foldl_best_ge [of x xs] foldl_best_ge [of b xs] by auto
  next
    case False
    with Cons.prems have "i \<in> set xs" by simp
    then show ?thesis using Cons.IH by auto
  qed
qed

lemma foldl_best_first:
  fixes b :: "string \<times> nat"
  shows "find (\<lambda>i. snd i = snd (foldl (\<lambda>best i. if snd i > snd best then i else best) b xs)) (b # xs)
     = Some (foldl (\<lambda>best i. if snd i > snd best then i else best) b xs)"
proof (induction xs arbitrary: b)
  case Nil
  then show ?case by simp
next
  case (Cons x xs)
  let ?f = "\<lambda>best i :: string \<times> nat. if snd i > snd best then i else best"
  show ?case
  proof (cases "snd x > snd b")
    case True
    have "snd x \<le> snd (foldl ?f x xs)" by (rule foldl_best_ge)
    with True have "snd b \<noteq> snd (foldl ?f x xs)" by simp
    with True Cons.IH [of x] show ?thesis by simp
  next
    case False
    have ge: "snd b \<le> snd (foldl ?f b xs)" by (rule foldl_best_ge)
    show ?thesis
    proof (cases "snd b = snd (foldl ?f b xs)")
      case True
      with False Cons.IH [of b] show ?thesis by simp
    next
      case neq: False
      with ge False have "snd x \<noteq> snd (foldl ?f b xs)" by simp
      with False neq Cons.IH [of b] show ?thesis by simp
    qed
  qed
qed

lemma max_by_score_Some:
  assumes "l \<noteq> []"
  shows "\<exists>c. max_by_score l = Some (c, Max (snd ` set l))
             \<and> find (\<lambda>i. snd i = Max (snd ` set l)) l = Some (c, Max (snd ` set l))"
proof -
  let ?f = "\<lambda>best i :: string \<times> nat. if snd i > snd best then i else best"
  from assms obtain b xs where l: "l = b # xs" by (cases l) auto
  let ?r = "foldl ?f b xs"
  have r: "max_by_score l = Some ?r" by (simp add: l)
  have first: "find (\<lambda>i. snd i = snd ?r) l = Some ?r"
    unfolding l by (rule foldl_best_first)
  then have "?r \<in> set l"
    by (auto simp: find_Some_iff)
  then have "snd ?r \<in> snd ` set l" by blast
  moreover have "\<forall>s \<in> snd ` set l. s \<le> snd ?r"
    using foldl_best_upper [of _ xs b] foldl_best_ge [of b xs] by (auto simp: l)
  ultimately have "Max (snd ` set l) = snd ?r"
    by (intro Max_eqI) auto
  with r first show ?thesis by (cases ?r) auto
qed

lemma extractOne_Some:
  assumes "choices \<noteq> []"
  shows "\<exists>c. extractOne scorer query choices = Some (c, Max (scorer query ` set choices))
           \<and> find (\<lambda>c. scorer query c = Max (scorer query ` set choices)) choices = Some c"
proof -
  let ?l = "map (\<lambda>c. (c, scorer query c)) choices"
  have l: "extractWithoutOrder scorer query choices 0 = ?l"
    using assms by (simp add: extractWithoutOrder_def)
  have ne: "?l \<noteq> []" using assms by simp
  have img: "snd ` set ?l = scorer query ` set choices" by (auto simp: image_image)
  from max_by_score_Some [OF ne] obtain c where
    c: "max_by_score ?l = Some (c, Max (scorer query ` set choices))"
       "find (\<lambda>i. snd i = Max (scorer query ` set choices)) ?l = Some (c, Max (scorer query ` set choices))"
    unfolding img by blast
  have "find (\<lambda>c. scorer query c = m) choices = Some c" if "find (\<lambda>i. snd i = m) (map (\<lambda>c. (c, scorer query c)) choices) = Some (c, m)" for m
    using that by (induction choices) (auto split: if_splits)
  with c show ?thesis by (auto simp: extractOne_def l)
qed

text \<open>
  Claim C5. For a title whose lower-cased form is not a key of a non-empty index, at the
  default threshold 90: when the best score over the keys is exactly 90, \<open>match_app_id\<close>
  returns the id of the first key that scores 90; when the best score is 89, it returns
  \<^verbatim>\<open>None\<close>.
\<close>

theorem match_app_id_threshold_boundary:
  assumes "lower name \<notin> set (keys app_dict)" and "app_dict \<noteq> []"
  shows "(Max (scorer (lower name) ` set (keys app_dict)) = 90 \<longrightarrow>
            (\<exists>k v. find (\<lambda>k. scorer (lower name) k = 90) (keys app_dict) = Some k
                 \<and> map_of app_dict k = Some v
                 \<and> match_app_id scorer name app_dict default_threshold = Inr (Some v)))
       \<and> (Max (scorer (lower name) ` set (keys app_dict)) = 89 \<longrightarrow>
            match_app_id scorer name app_dict default_threshold = Inr None)"
proof -
  let ?best = "Max (scorer (lower name) ` set (keys app_dict))"
  from assms(2) have "keys app_dict \<noteq> []" by (simp add: keys_def)
  from extractOne_Some [OF this, of scorer "lower name"] obtain k where
    k: "extractOne scorer (lower name) (keys app_dict) = Some (k, ?best)"
       "find (\<lambda>c. scorer (lower name) c = ?best) (keys app_dict) = Some k"
    by blast
  from k(2) have "k \<in> set (keys app_dict)" by (auto simp: find_Some_iff)
  then obtain v where v: "map_of app_dict k = Some v"
    by (auto simp: keys_def weak_map_of_SomeI dest!: weak_map_of_SomeI)
  have m: "match_app_id scorer name app_dict default_threshold =
        (if int ?best \<ge> 90 then Inr (Some v) else Inr None)"
    using assms(1) k(1) v by (simp add: match_app_id_def getitem_def default_threshold_def)
  show ?thesis using k(2) v m by auto
qed

theorem match_app_id_threshold_boundary_witness:
  "match_app_id (\<lambda>q c. if c = ''halo infinite'' then 90 else 40) ''Halo''
     [(''apex'', 1), (''halo infinite'', 2), (''halo wars'', 3)] default_threshold = Inr (Some 2)
   \<and> match_app_id (\<lambda>q c. if c = ''halo infinite'' then 89 else 40) ''Halo''
     [(''apex'', 1), (''halo infinite'', 2), (''halo wars'', 3)] default_threshold = Inr None"
proof -
  let ?d = "[(''apex'', 1), (''halo infinite'', 2), (''halo wars'', 3)] :: app_dict"
  have h1: "lower ''Halo'' \<notin> set (keys ?d)"
    by code_simp
  have h2: "?d \<noteq> []" by simp
  have m90: "Max ((\<lambda>c. if c = ''halo infinite'' then 90 else 40 :: nat) ` set (keys ?d)) = 90"
    by (simp add: keys_def)
  have m89: "Max ((\<lambda>c. if c = ''halo infinite'' then 89 else 40 :: nat) ` set (keys ?d)) = 89"
    by (simp add: keys_def)
  show ?thesis
    using match_app_id_threshold_boundary [OF h1 h2, of "\<lambda>q c. if c = ''halo infinite'' then 90 else 40"]
      match_app_id_threshold_boundary [OF h1 h2, of "\<lambda>q c. if c = ''halo infinite'' then 89 else 40"]
      m90 m89
    by (simp add: keys_def)
qed

section \<open>Failures of the player count endpoint\<close>

text \<open>
  Claim C3, as the code behaves. \<open>get_steam_player_count\<close> does not look at the status
  code and calls \<^verbatim>\<open>response.json()\<close> outside any \<^verbatim>\<open>try\<close>: on an answer 500 whose body is
  not JSON it raises \<^verbatim>\<open>JSONDecodeError\<close>, on an answer 500 whose body carries a count it
  returns that count, and the exception ends the loop at that record with nothing committed.
\<close>

theorem get_steam_player_count_failures:
  "get_steam_player_count (\<lambda>a. \<lparr>status_code = 500, body = None\<rparr>) (Some 570)
     = (Inl JSONDecodeError, [570])
   \<and> get_steam_player_count
       (\<lambda>a. \<lparr>status_code = 500,
               body = Some \<lparr>response_member = Some \<lparr>player_count = Some 1500\<rparr>\<rparr>\<rparr>) (Some 570)
     = (Inr (Some 1500), [570])
   \<and> sync scorer [(lower (title game), 570)] (\<lambda>a. \<lparr>status_code = 500, body = None\<rparr>) [] [game]
     = \<lparr>stored = [], staged = [],
        calls = [Resolve (id' game) (title game), Fetch (id' game) (Some 570),
                 Request (id' game) 570],
        raised = Some JSONDecodeError\<rparr>"
proof -
  have g: "get_steam_player_count (\<lambda>a. \<lparr>status_code = 500, body = None\<rparr>) (Some 570)
     = (Inl JSONDecodeError, [570])"
    by (simp add: get_steam_player_count_def json_def)
  have g2: "get_steam_player_count
       (\<lambda>a. \<lparr>status_code = 500,
               body = Some \<lparr>response_member = Some \<lparr>player_count = Some 1500\<rparr>\<rparr>\<rparr>) (Some 570)
     = (Inr (Some 1500), [570])"
    by (simp add: get_steam_player_count_def json_def)
  have m: "match_app_id scorer (title game) [(lower (title game), 570)] default_threshold
      = Inr (Some 570)"
    by (simp add: match_app_id_def keys_def getitem_def)
  have "sync scorer [(lower (title game), 570)] (\<lambda>a. \<lparr>status_code = 500, body = None\<rparr>) [] [game]
     = \<lparr>stored = [], staged = [],
        calls = [Resolve (id' game) (title game), Fetch (id' game) (Some 570),
                 Request (id' game) 570],
        raised = Some JSONDecodeError\<rparr>"
    by (simp add: sync_def process_game_def query_first_def m g truthy_def)
  with g g2 show ?thesis by simp
qed

section \<open>One iteration of the loop\<close>

lemma query_first_None: "query_first s i = None \<longleftrightarrow> i \<notin> id' ` set (table s @ pending s)"
  by (auto simp: query_first_def find_None_iff)

lemma process_game_cases:
  obtains
    (skip) "id' g \<in> id' ` set (table s @ pending s)"
      and "process_game scorer d steam s g = (s, None)"
  | (abort) evs e where "id' g \<notin> id' ` set (table s @ pending s)"
      and "process_game scorer d steam s g = (s\<lparr>trace := trace s @ evs\<rparr>, Some e)"
      and "subject ` set evs \<subseteq> {id' g}"
      and "\<forall>i a. Fetch i a \<in> set evs \<longrightarrow> truthy a"
  | (stage) evs r where "id' g \<notin> id' ` set (table s @ pending s)"
      and "process_game scorer d steam s g =
             (s\<lparr>pending := pending s @ [r], trace := trace s @ evs\<rparr>, None)"
      and "id' r = id' g"
      and "subject ` set evs \<subseteq> {id' g}"
      and "\<forall>i a. Fetch i a \<in> set evs \<longrightarrow> truthy a"
      and "\<not> truthy (steam_appid r) \<longrightarrow>
             steam_player_count r = None \<and> evs = [Resolve (id' g) (title g)]"
proof (cases "query_first s (id' g)")
  case (Some row)
  then have "id' g \<in> id' ` set (table s @ pending s)"
    using query_first_None [of s "id' g"] by auto
  moreover have "process_game scorer d steam s g = (s, None)"
    using Some by (simp add: process_game_def)
  ultimately show ?thesis by (rule skip)
next
  case None
  then have new: "id' g \<notin> id' ` set (table s @ pending s)"
    by (simp add: query_first_None)
  show ?thesis
  proof (cases "match_app_id scorer (title g) d default_threshold")
    case (Inl e)
    with None have "process_game scorer d steam s g =
        (s\<lparr>trace := trace s @ [Resolve (id' g) (title g)]\<rparr>, Some e)"
      by (simp add: process_game_def)
    with new show ?thesis by (rule abort) auto
  next
    case (Inr a)
    show ?thesis
    proof (cases "truthy a")
      case False
      with None Inr have "process_game scorer d steam s g =
          (s\<lparr>pending := pending s @ [game.extend g \<lparr>steam_appid = a, steam_player_count = None\<rparr>],
             trace := trace s @ [Resolve (id' g) (title g)]\<rparr>, None)"
        by (simp add: process_game_def add_def)
      with new show ?thesis
        by (rule stage) (auto simp: game.defs False)
    next
      case True
      obtain c rq where c: "get_steam_player_count steam a = (c, rq)" by fastforce
      let ?evs = "Resolve (id' g) (title g) # Fetch (id' g) a # map (Request (id' g)) rq"
      show ?thesis
      proof (cases c)
        case (Inl e)
        with None Inr True c have "process_game scorer d steam s g =
            (s\<lparr>trace := trace s @ ?evs\<rparr>, Some e)"
          by (simp add: process_game_def)
        with new show ?thesis by (rule abort) (auto simp: True)
      next
        case (Inr pc)
        with None \<open>match_app_id scorer (title g) d default_threshold = Inr a\<close> True c
        have "process_game scorer d steam s g =
            (s\<lparr>pending := pending s @ [game.extend g \<lparr>steam_appid = a, steam_player_count = pc\<rparr>],
               trace := trace s @ ?evs\<rparr>, None)"
          by (simp add: process_game_def add_def)
        with new show ?thesis by (rule stage) (auto simp: game.defs True)
      qed
    qed
  qed
qed

section \<open>The loop\<close>

lemma sync_loop_invariant:
  assumes "Q (s, None)"
    and "\<And>s g. Q (s, None) \<Longrightarrow> Q (process_game scorer d steam s g)"
  shows "Q (sync_loop scorer d steam s gs)"
  using assms(1)
proof (induction gs arbitrary: s)
  case Nil
  then show ?case by simp
next
  case (Cons g gs)
  obtain s' e where p: "process_game scorer d steam s g = (s', e)" by fastforce
  from assms(2) [OF Cons.prems, of g] p have q: "Q (s', e)" by simp
  show ?case
  proof (cases e)
    case None
    with q Cons.IH [of s'] p show ?thesis by simp
  next
    case (Some err)
    with q p show ?thesis by simp
  qed
qed

lemma sync_loop_table: "table (fst (sync_loop scorer d steam s gs)) = table s"
proof -
  have "(\<lambda>(s' :: state, e :: py_error option). table s' = table s) (sync_loop scorer d steam s gs)"
  proof (rule sync_loop_invariant)
    show "(\<lambda>(s', e). table s' = table s) (s, None)" by simp
  next
    fix s1 :: state and g :: game
    assume "(\<lambda>(s', e). table s' = table s) (s1, None)"
    then show "(\<lambda>(s', e). table s' = table s) (process_game scorer d steam s1 g)"
      by (cases rule: process_game_cases [of g s1 scorer d steam]) auto
  qed
  then show ?thesis by (simp add: case_prod_unfold)
qed

lemma process_game_ids_mono:
  "id' ` set (table s @ pending s)
     \<subseteq> id' ` set (table (fst (process_game scorer d steam s g))
                      @ pending (fst (process_game scorer d steam s g)))"
  by (cases rule: process_game_cases [of g s scorer d steam]) auto

lemma sync_loop_ids_mono:
  "id' ` set (table s @ pending s)
     \<subseteq> id' ` set (table (fst (sync_loop scorer d steam s gs))
                      @ pending (fst (sync_loop scorer d steam s gs)))"
proof -
  let ?Q = "\<lambda>(s' :: state, e :: py_error option). id' ` set (table s @ pending s) \<subseteq> id' ` set (table s' @ pending s')"
  have "?Q (sync_loop scorer d steam s gs)"
  proof (rule sync_loop_invariant)
    show "?Q (s, None)" by simp
  next
    fix s1 :: state and g :: game
    assume "?Q (s1, None)"
    then show "?Q (process_game scorer d steam s1 g)"
      using process_game_ids_mono [of s1 scorer d steam g]
      by (simp add: case_prod_unfold)
  qed
  then show ?thesis by (simp add: case_prod_unfold)
qed

lemma sync_loop_all_present:
  "sync_loop scorer d steam s gs = (s', None) \<Longrightarrow>
   id' ` set gs \<subseteq> id' ` set (table s' @ pending s')"
proof (induction gs arbitrary: s)
  case Nil
  then show ?case by simp
next
  case (Cons g gs)
  obtain s1 e where p: "process_game scorer d steam s g = (s1, e)" by fastforce
  with Cons.prems have e: "e = None" and rest: "sync_loop scorer d steam s1 gs = (s', None)"
    by (auto split: option.splits)
  have "id' g \<in> id' ` set (table s1 @ pending s1)"
    using p e by (cases rule: process_game_cases [of g s scorer d steam]) auto
  moreover have "id' ` set (table s1 @ pending s1) \<subseteq> id' ` set (table s' @ pending s')"
    using sync_loop_ids_mono [of s1 scorer d steam gs] rest by simp
  ultimately show ?case using Cons.IH [OF rest] by auto
qed

lemma sync_loop_noop:
  "id' ` set gs \<subseteq> id' ` set (table s @ pending s) \<Longrightarrow>
   sync_loop scorer d steam s gs = (s, None)"
proof (induction gs)
  case Nil
  then show ?case by simp
next
  case (Cons g gs)
  then have "id' g \<in> id' ` set (table s @ pending s)" by simp
  then have "process_game scorer d steam s g = (s, None)"
    by (cases rule: process_game_cases [of g s scorer d steam]) auto
  with Cons show ?case by simp
qed

lemma sync_loop_append:
  "sync_loop scorer d steam s (xs @ ys) =
     (case sync_loop scorer d steam s xs of
        (s', Some e) \<Rightarrow> (s', Some e)
      | (s', None) \<Rightarrow> sync_loop scorer d steam s' ys)"
  by (induction xs arbitrary: s) (auto split: prod.splits option.splits)

lemma sync_loop_skip:
  assumes "id' g \<in> id' ` set (table s @ pending s)"
  shows "sync_loop scorer d steam s (xs @ g # ys) = sync_loop scorer d steam s (xs @ ys)"
proof -
  obtain s1 e where l: "sync_loop scorer d steam s xs = (s1, e)" by fastforce
  show ?thesis
  proof (cases e)
    case (Some err)
    with l show ?thesis by (simp add: sync_loop_append)
  next
    case None
    have "id' g \<in> id' ` set (table s1 @ pending s1)"
      using sync_loop_ids_mono [of s scorer d steam xs] assms l by auto
    then have "process_game scorer d steam s1 g = (s1, None)"
      by (cases rule: process_game_cases [of g s1 scorer d steam]) auto
    with l None show ?thesis by (simp add: sync_loop_append)
  qed
qed

lemma sync_loop_fresh:
  assumes "id' ` set (pending s) \<inter> id' ` set (table s) = {}"
    and "subject ` set (trace s) \<inter> id' ` set (table s) = {}"
  shows "id' ` set (pending (fst (sync_loop scorer d steam s gs))) \<inter> id' ` set (table s) = {}
       \<and> subject ` set (trace (fst (sync_loop scorer d steam s gs))) \<inter> id' ` set (table s) = {}"
proof -
  let ?Q = "\<lambda>(s' :: state, e :: py_error option).
      table s' = table s \<and> id' ` set (pending s') \<inter> id' ` set (table s) = {}
      \<and> subject ` set (trace s') \<inter> id' ` set (table s) = {}"
  have "?Q (sync_loop scorer d steam s gs)"
  proof (rule sync_loop_invariant)
    show "?Q (s, None)" using assms by simp
  next
    fix s1 :: state and g :: game
    assume q: "?Q (s1, None)"
    show "?Q (process_game scorer d steam s1 g)"
    proof (cases rule: process_game_cases [of g s1 scorer d steam])
      case skip
      with q show ?thesis by simp
    next
      case (abort evs e)
      with q show ?thesis by auto
    next
      case (stage evs r)
      with q show ?thesis by auto
    qed
  qed
  then show ?thesis by (simp add: case_prod_unfold)
qed

lemma unfetched_trace_append:
  assumes "unfetched s" and "\<forall>ev \<in> set evs. subject ev \<notin> id' ` set (pending s)"
  shows "unfetched (s\<lparr>trace := trace s @ evs\<rparr>)"
  unfolding unfetched_def
proof (intro ballI impI)
  fix r
  assume r: "r \<in> set (pending (s\<lparr>trace := trace s @ evs\<rparr>))"
    and f: "\<not> truthy (steam_appid r)"
  from r have rs: "r \<in> set (pending s)" by simp
  from assms(1) rs f have c: "steam_player_count r = None"
    and t: "\<forall>ev \<in> set (trace s). subject ev = id' r \<longrightarrow> (\<exists>t. ev = Resolve (id' r) t)"
    unfolding unfetched_def by blast+
  from assms(2) rs have "\<forall>ev \<in> set evs. subject ev \<noteq> id' r" by blast
  with t have "\<forall>ev \<in> set (trace s @ evs). subject ev = id' r \<longrightarrow> (\<exists>t. ev = Resolve (id' r) t)"
    by auto
  with c show "steam_player_count r = None \<and>
      (\<forall>ev \<in> set (trace (s\<lparr>trace := trace s @ evs\<rparr>)).
         subject ev = id' r \<longrightarrow> (\<exists>t. ev = Resolve (id' r) t))"
    by simp
qed

lemma unfetched_add:
  assumes "unfetched s"
    and "\<not> truthy (steam_appid r) \<longrightarrow> steam_player_count r = None
          \<and> (\<forall>ev \<in> set (trace s). subject ev = id' r \<longrightarrow> (\<exists>t. ev = Resolve (id' r) t))"
  shows "unfetched (s\<lparr>pending := pending s @ [r]\<rparr>)"
  using assms unfolding unfetched_def by simp

lemma process_game_unfetched:
  assumes "unfetched s" and "accounted s"
    and "process_game scorer d steam s g = (s', e)"
  shows "unfetched s' \<and> (e = None \<longrightarrow> accounted s')"
proof (cases rule: process_game_cases [of g s scorer d steam])
  case skip
  with assms show ?thesis by simp
next
  case (abort evs err)
  from abort(3) have subj: "\<forall>ev \<in> set evs. subject ev = id' g" by force
  with abort(1) have fresh: "\<forall>ev \<in> set evs. subject ev \<notin> id' ` set (pending s)"
    by (simp add: image_Un)
  from abort(2) assms(3) have s': "s' = s\<lparr>trace := trace s @ evs\<rparr>" and "e = Some err" by simp_all
  have "unfetched s'"
    unfolding s' using assms(1) fresh by (rule unfetched_trace_append)
  with \<open>e = Some err\<close> show ?thesis by simp
next
  case (stage evs r)
  from stage(4) have subj: "\<forall>ev \<in> set evs. subject ev = id' g" by force
  with stage(1) have fresh: "\<forall>ev \<in> set evs. subject ev \<notin> id' ` set (pending s)"
    by (simp add: image_Un)
  have notrace: "\<forall>ev \<in> set (trace s). subject ev \<noteq> id' g"
  proof
    fix ev
    assume "ev \<in> set (trace s)"
    then have "subject ev \<in> subject ` set (trace s)" by (rule imageI)
    with assms(2) have "subject ev \<in> id' ` set (table s @ pending s)"
      unfolding accounted_def by (rule subsetD)
    with stage(1) show "subject ev \<noteq> id' g" by metis
  qed
  from stage(2) assms(3)
  have s': "s' = (s\<lparr>trace := trace s @ evs\<rparr>)\<lparr>pending := pending (s\<lparr>trace := trace s @ evs\<rparr>) @ [r]\<rparr>"
    and e: "e = None" by simp_all
  have u1: "unfetched (s\<lparr>trace := trace s @ evs\<rparr>)"
    using assms(1) fresh by (rule unfetched_trace_append)
  have "\<not> truthy (steam_appid r) \<longrightarrow> steam_player_count r = None
          \<and> (\<forall>ev \<in> set (trace (s\<lparr>trace := trace s @ evs\<rparr>)).
                subject ev = id' r \<longrightarrow> (\<exists>t. ev = Resolve (id' r) t))"
  proof
    assume f: "\<not> truthy (steam_appid r)"
    with stage(6) have c: "steam_player_count r = None"
      and evs: "evs = [Resolve (id' g) (title g)]" by blast+
    have "\<exists>t. ev = Resolve (id' r) t"
      if "ev \<in> set (trace s @ evs)" and "subject ev = id' r" for ev
    proof (cases "ev \<in> set (trace s)")
      case True
      with notrace have "subject ev \<noteq> id' g" by blast
      with that(2) stage(3) show ?thesis by simp
    next
      case False
      with that(1) evs have "ev = Resolve (id' g) (title g)" by simp
      with stage(3) show ?thesis by simp
    qed
    with c show "steam_player_count r = None
          \<and> (\<forall>ev \<in> set (trace (s\<lparr>trace := trace s @ evs\<rparr>)).
                subject ev = id' r \<longrightarrow> (\<exists>t. ev = Resolve (id' r) t))"
      by simp
  qed
  with u1 have "unfetched s'" unfolding s' by (rule unfetched_add)
  moreover have "accounted s'"
  proof -
    have "subject ev \<in> id' ` set (table s @ pending s @ [r])" if "ev \<in> set (trace s @ evs)" for ev
    proof (cases "ev \<in> set (trace s)")
      case True
      then have "subject ev \<in> subject ` set (trace s)" by (rule imageI)
      with assms(2) have "subject ev \<in> id' ` set (table s @ pending s)"
        unfolding accounted_def by (rule subsetD)
      then show ?thesis by auto
    next
      case False
      with that have "ev \<in> set evs" by simp
      with subj have "subject ev = id' r" using stage(3) by simp
      then show ?thesis by simp
    qed
    then show ?thesis unfolding accounted_def s' by auto
  qed
  ultimately show ?thesis using e by simp
qed

lemma sync_loop_unfetched:
  assumes "unfetched s" and "accounted s"
  shows "unfetched (fst (sync_loop scorer d steam s gs))"
proof -
  let ?Q = "\<lambda>(s' :: state, e :: py_error option). unfetched s' \<and> (e = None \<longrightarrow> accounted s')"
  have "?Q (sync_loop scorer d steam s gs)"
  proof (rule sync_loop_invariant)
    show "?Q (s, None)" using assms by simp
  next
    fix s1 :: state and g :: game
    assume q: "?Q (s1, None)"
    obtain s' e where p: "process_game scorer d steam s1 g = (s', e)" by fastforce
    from q have "unfetched s1" "accounted s1" by simp_all
    from process_game_unfetched [OF this p] p
    show "?Q (process_game scorer d steam s1 g)" by simp
  qed
  then show ?thesis by (simp add: case_prod_unfold)
qed

text \<open>Evaluating a run on a sample input.\<close>

lemmas run_defs = sync_def process_game_def query_first_def match_app_id_def getitem_def
  keys_def truthy_def get_steam_player_count_def json_def add_def commit_def game.defs
  default_threshold_def Let_def catalog_record_def answer_def extractOne_def
  extractWithoutOrder_def

section \<open>Runs of the sync\<close>

text \<open>
  Claim C1. When a run of \<open>sync\<close> over a catalog ends without an exception, and so
  commits what it staged, a second run over the same catalog and the table the first run
  left stages nothing, calls nothing, raises nothing and leaves the table as it is,
  whatever the index, the scorer and the endpoint of the second run are.
\<close>

theorem sync_idempotent:
  assumes "raised (sync scorer d steam rows api_data) = None"
  shows "sync scorer2 d2 steam2 (stored (sync scorer d steam rows api_data)) api_data =
           \<lparr>stored = stored (sync scorer d steam rows api_data),
            staged = [], calls = [], raised = None\<rparr>"
proof -
  let ?s0 = "\<lparr>table = rows, pending = [], trace = []\<rparr>"
  obtain s e where l: "sync_loop scorer d steam ?s0 api_data = (s, e)" by fastforce
  with assms have e: "e = None" by (cases e) (simp_all add: sync_def)
  with l have st: "stored (sync scorer d steam rows api_data) = table s @ pending s"
    by (simp add: sync_def commit_def)
  from sync_loop_all_present l e
  have "id' ` set api_data \<subseteq> id' ` set (table s @ pending s)" by blast
  then have "sync_loop scorer2 d2 steam2 \<lparr>table = table s @ pending s, pending = [], trace = []\<rparr> api_data
      = (\<lparr>table = table s @ pending s, pending = [], trace = []\<rparr>, None)"
    by (intro sync_loop_noop) simp
  then show ?thesis unfolding st by (simp add: sync_def commit_def)
qed

theorem sync_idempotent_witness:
  "raised (sync (\<lambda>q c. 0) [(''path of exile'', 238960)] (\<lambda>a. answer 200 (Some (Some 1500))) []
      [catalog_record 1 ''Path of Exile'']) = None
   \<and> sync (\<lambda>q c. 0) [] (\<lambda>a. answer 500 None)
        [game.extend (catalog_record 1 ''Path of Exile'')
           \<lparr>steam_appid = Some 238960, steam_player_count = Some 1500\<rparr>]
        [catalog_record 1 ''Path of Exile'']
     = \<lparr>stored = [game.extend (catalog_record 1 ''Path of Exile'')
                    \<lparr>steam_appid = Some 238960, steam_player_count = Some 1500\<rparr>],
        staged = [], calls = [], raised = None\<rparr>"
proof -
  let ?first = "sync (\<lambda>q c. 0) [(''path of exile'', 238960)] (\<lambda>a. answer 200 (Some (Some 1500))) []
      [catalog_record 1 ''Path of Exile'']"
  have low: "lower ''Path of Exile'' = ''path of exile''" by code_simp
  have h: "raised ?first = None"
    by (simp add: run_defs low)
  have st: "stored ?first = [game.extend (catalog_record 1 ''Path of Exile'')
           \<lparr>steam_appid = Some 238960, steam_player_count = Some 1500\<rparr>]"
    by (simp add: run_defs low)
  show ?thesis
    using h sync_idempotent [OF h, of "\<lambda>q c. 0" "[]" "\<lambda>a. answer 500 None"]
    unfolding st by simp
qed

text \<open>
  Claim C6. A catalog record whose id is the id of a row of the table is skipped: the run
  is the run over the catalog without that record, no call of \<^verbatim>\<open>match_app_id\<close> or
  \<^verbatim>\<open>get_steam_player_count\<close> and no request belongs to it, and no staged object has its id.
\<close>

theorem sync_skips_stored_record:
  assumes "\<exists>row \<in> set rows. id' row = id' game"
  shows "sync scorer d steam rows (before @ game # after) = sync scorer d steam rows (before @ after)
       \<and> id' game \<notin> subject ` set (calls (sync scorer d steam rows (before @ game # after)))
       \<and> id' game \<notin> id' ` set (staged (sync scorer d steam rows (before @ game # after)))"
proof -
  let ?s0 = "\<lparr>table = rows, pending = [], trace = []\<rparr>"
  let ?l = "sync_loop scorer d steam ?s0 (before @ game # after)"
  from assms have in_table: "id' game \<in> id' ` set rows" by force
  then have "id' game \<in> id' ` set (table ?s0 @ pending ?s0)" by simp
  then have "?l = sync_loop scorer d steam ?s0 (before @ after)"
    by (rule sync_loop_skip)
  then have same: "sync scorer d steam rows (before @ game # after) = sync scorer d steam rows (before @ after)"
    by (simp add: sync_def)
  have "id' ` set (pending (fst ?l)) \<inter> id' ` set (table ?s0) = {}
       \<and> subject ` set (trace (fst ?l)) \<inter> id' ` set (table ?s0) = {}"
    by (rule sync_loop_fresh) simp_all
  with in_table have fresh: "id' game \<notin> id' ` set (pending (fst ?l))"
      "id' game \<notin> subject ` set (trace (fst ?l))"
    by auto
  have "staged (sync scorer d steam rows (before @ game # after)) = pending (fst ?l)"
    "calls (sync scorer d steam rows (before @ game # after)) = trace (fst ?l)"
    by (auto simp: sync_def split: prod.splits option.splits)
  with same fresh show ?thesis by simp
qed

theorem sync_skips_stored_record_witness:
  "(\<exists>row \<in> set [game.extend (catalog_record 42 ''Warframe'')
                    \<lparr>steam_appid = None, steam_player_count = None\<rparr>].
      id' row = id' (catalog_record 42 ''Warframe''))
   \<and> sync (\<lambda>q c. 0) [] (\<lambda>a. answer 500 None)
        [game.extend (catalog_record 42 ''Warframe'') \<lparr>steam_appid = None, steam_player_count = None\<rparr>]
        [catalog_record 42 ''Warframe'']
     = \<lparr>stored = [game.extend (catalog_record 42 ''Warframe'')
                    \<lparr>steam_appid = None, steam_player_count = None\<rparr>],
        staged = [], calls = [], raised = None\<rparr>"
proof -
  let ?rows = "[game.extend (catalog_record 42 ''Warframe'')
                    \<lparr>steam_appid = None, steam_player_count = None\<rparr>]"
  have h: "\<exists>row \<in> set ?rows. id' row = id' (catalog_record 42 ''Warframe'')"
    by (simp add: game.defs catalog_record_def)
  have e: "sync (\<lambda>q c. 0) [] (\<lambda>a. answer 500 None) ?rows ([] @ [])
      = \<lparr>stored = ?rows, staged = [], calls = [], raised = None\<rparr>"
    by (simp add: sync_def commit_def)
  show ?thesis
    using h e sync_skips_stored_record [OF h, of "\<lambda>q c. 0" "[]" "\<lambda>a. answer 500 None" "[]" "[]"]
    by simp
qed

text \<open>
  Claim C10. Every object staged by a run whose \<^verbatim>\<open>steam_appid\<close> is \<^verbatim>\<open>None\<close> or 0 has the
  player count \<^verbatim>\<open>None\<close>, and the run has made no call of \<^verbatim>\<open>get_steam_player_count\<close> and
  no request for its catalog record.
\<close>

theorem staged_count_needs_appid:
  "\<forall>r \<in> set (staged (sync scorer d steam rows api_data)).
     steam_appid r = None \<or> steam_appid r = Some 0 \<longrightarrow>
       steam_player_count r = None
       \<and> (\<forall>a. Fetch (id' r) a \<notin> set (calls (sync scorer d steam rows api_data)))
       \<and> (\<forall>a. Request (id' r) a \<notin> set (calls (sync scorer d steam rows api_data)))"
proof -
  let ?s0 = "\<lparr>table = rows, pending = [], trace = []\<rparr>"
  let ?l = "sync_loop scorer d steam ?s0 api_data"
  have st: "staged (sync scorer d steam rows api_data) = pending (fst ?l)"
    "calls (sync scorer d steam rows api_data) = trace (fst ?l)"
    by (auto simp: sync_def split: prod.splits option.splits)
  have "unfetched (fst ?l)"
    by (rule sync_loop_unfetched) (simp_all add: unfetched_def accounted_def)
  then have u: "\<forall>r \<in> set (pending (fst ?l)). \<not> truthy (steam_appid r) \<longrightarrow>
        steam_player_count r = None
        \<and> (\<forall>ev \<in> set (trace (fst ?l)). subject ev = id' r \<longrightarrow> (\<exists>t. ev = Resolve (id' r) t))"
    by (simp add: unfetched_def)
  show ?thesis
    unfolding st
  proof (intro ballI impI)
    fix r
    assume r: "r \<in> set (pending (fst ?l))"
      and a: "steam_appid r = None \<or> steam_appid r = Some 0"
    from a have "\<not> truthy (steam_appid r)" by (auto simp: truthy_def)
    with u r have c: "steam_player_count r = None"
      and t: "\<forall>ev \<in> set (trace (fst ?l)). subject ev = id' r \<longrightarrow> (\<exists>t. ev = Resolve (id' r) t)"
      by blast+
    from t have "\<forall>a. Fetch (id' r) a \<notin> set (trace (fst ?l))"
      by (metis event.distinct(1) subject.simps(2))
    moreover from t have "\<forall>a. Request (id' r) a \<notin> set (trace (fst ?l))"
      by (metis event.distinct(3) subject.simps(3))
    ultimately show "steam_player_count r = None
        \<and> (\<forall>a. Fetch (id' r) a \<notin> set (trace (fst ?l)))
        \<and> (\<forall>a. Request (id' r) a \<notin> set (trace (fst ?l)))"
      using c by simp
  qed
qed

theorem staged_count_needs_appid_witness:
  "staged (sync (\<lambda>q c. 0) [(''zero'', 0)] (\<lambda>a. answer 200 (Some (Some 7))) []
      [catalog_record 5 ''Zero''])
     = [game.extend (catalog_record 5 ''Zero'') \<lparr>steam_appid = Some 0, steam_player_count = None\<rparr>]
   \<and> (\<forall>a. Fetch 5 a \<notin> set (calls (sync (\<lambda>q c. 0) [(''zero'', 0)]
         (\<lambda>a. answer 200 (Some (Some 7))) [] [catalog_record 5 ''Zero''])))
   \<and> (\<forall>a. Request 5 a \<notin> set (calls (sync (\<lambda>q c. 0) [(''zero'', 0)]
         (\<lambda>a. answer 200 (Some (Some 7))) [] [catalog_record 5 ''Zero''])))"
proof -
  let ?run = "sync (\<lambda>q c. 0) [(''zero'', 0)] (\<lambda>a. answer 200 (Some (Some 7))) []
      [catalog_record 5 ''Zero'']"
  let ?row = "game.extend (catalog_record 5 ''Zero'')
      \<lparr>steam_appid = Some 0, steam_player_count = None\<rparr>"
  have low: "lower ''Zero'' = ''zero''" by code_simp
  have st: "staged ?run = [?row]"
    by (simp add: run_defs low)
  have a: "steam_appid ?row = Some 0" and i: "id' ?row = 5"
    by (simp_all add: game.defs catalog_record_def)
  from staged_count_needs_appid [of "\<lambda>q c. 0" "[(''zero'', 0)]" "\<lambda>a. answer 200 (Some (Some 7))"
      "[]" "[catalog_record 5 ''Zero'']"]
  have "steam_appid ?row = None \<or> steam_appid ?row = Some 0 \<longrightarrow>
       steam_player_count ?row = None
       \<and> (\<forall>a. Fetch (id' ?row) a \<notin> set (calls ?run))
       \<and> (\<forall>a. Request (id' ?row) a \<notin> set (calls ?run))"
    unfolding st by simp
  with a i st show ?thesis by simp
qed

text \<open>
  Claim C8. When the catalog endpoint answers with a status other than 200, \<open>fetch_api\<close>
  returns \<^verbatim>\<open>None\<close>, which the script replaces by the empty list; the script then stages
  nothing, makes no call and leaves the rows of the table as they were.
\<close>

theorem catalog_failure_leaves_store:
  assumes "status_code catalog_response \<noteq> 200"
  shows "fetch_api catalog_response = Inr None
       \<and> stored (script scorer applist_response catalog_response steam rows) = rows
       \<and> staged (script scorer applist_response catalog_response steam rows) = []
       \<and> calls (script scorer applist_response catalog_response steam rows) = []"
proof -
  from assms have f: "fetch_api catalog_response = Inr None"
    by (simp add: fetch_api_def)
  have s: "sync scorer d steam rows [] =
      \<lparr>stored = rows, staged = [], calls = [], raised = None\<rparr>" for d
    by (simp add: sync_def commit_def)
  show ?thesis
  proof (cases "build_steam_app_dict applist_response")
    case (Inl e)
    with f show ?thesis by (simp add: script_def aborted_def)
  next
    case (Inr d)
    with f s show ?thesis by (simp add: script_def)
  qed
qed

theorem catalog_failure_leaves_store_witness:
  "status_code \<lparr>status_code = 500, body = None :: game list option\<rparr> \<noteq> 200
   \<and> fetch_api \<lparr>status_code = 500, body = None\<rparr> = Inr None
   \<and> script (\<lambda>q c. 0) \<lparr>status_code = 200, body = Some \<lparr>applist = None\<rparr>\<rparr>
        \<lparr>status_code = 500, body = None\<rparr> (\<lambda>a. \<lparr>status_code = 200, body = None\<rparr>) []
      = \<lparr>stored = [], staged = [], calls = [], raised = None\<rparr>"
proof -
  have h: "status_code \<lparr>status_code = 500, body = None :: game list option\<rparr> \<noteq> 200" by simp
  have r: "raised (script (\<lambda>q c. 0) \<lparr>status_code = 200, body = Some \<lparr>applist = None\<rparr>\<rparr>
        \<lparr>status_code = 500, body = None\<rparr> (\<lambda>a. \<lparr>status_code = 200, body = None\<rparr>) []) = None"
    by (simp add: script_def build_steam_app_dict_def json_def get_def fetch_api_def sync_def)
  show ?thesis
    using h r catalog_failure_leaves_store [OF h, of "\<lambda>q c. 0"
        "\<lparr>status_code = 200, body = Some \<lparr>applist = None\<rparr>\<rparr>"
        "\<lambda>a. \<lparr>status_code = 200, body = None\<rparr>" "[]"]
    by (cases "script (\<lambda>q c. 0) \<lparr>status_code = 200, body = Some \<lparr>applist = None\<rparr>\<rparr>
        \<lparr>status_code = 500, body = None\<rparr> (\<lambda>a. \<lparr>status_code = 200, body = None\<rparr>) []") simp
qed

end
